theory Spec2Isabelle
  imports Complex_Main
begin

unbundle bit_operations_syntax

section \<open>The HX711 driver of \<^verbatim>\<open>src/hx711/hx711.py\<close>\<close>

text \<open>
  The driver bit-bangs the read protocol of a 24-bit converter: one shared clock output,
  one data input for each load cell. The embedding follows the two classes of the source,
  \<^verbatim>\<open>HX711\<close> and \<^verbatim>\<open>LoadCell\<close>, method by method.

  Conventions of the embedding.
  \<^item> Python objects are records. An attribute that \<^verbatim>\<open>__init__\<close> does not assign is an
    \<open>option\<close> field, \<open>None\<close> while the attribute is absent; reading it then raises
    \<^verbatim>\<open>AttributeError\<close>.
  \<^item> Exceptions are values: a method returns \<open>error + 'a\<close> beside the state it leaves
    behind (Python mutates in place, so what was done before a raise stays done).
  \<^item> The outside world is a record: the values the successive \<^verbatim>\<open>GPIO.input\<close> calls
    return, the readings of the successive \<^verbatim>\<open>perf_counter\<close> calls, the log of the
    \<^verbatim>\<open>GPIO.setup\<close> and \<^verbatim>\<open>GPIO.output\<close> calls, and the number of \<^verbatim>\<open>sleep(0.01)\<close> calls.
  \<^item> The module \<^verbatim>\<open>RPi.GPIO\<close> is taken to be present (\<^verbatim>\<open>SIMULATE_PI = False\<close>). When the
    import fails the name \<^verbatim>\<open>GPIO\<close> is unbound and every method below that touches it
    raises \<^verbatim>\<open>NameError\<close>.
  \<^item> \<^verbatim>\<open>perf_counter\<close> readings are real numbers; the source compares a difference of two
    floats with \<^verbatim>\<open>0.00006\<close>, and the rounding of that comparison is not modelled.
  \<^item> The \<^verbatim>\<open>print\<close> calls under \<^verbatim>\<open>debug_mode\<close> are left out: they change no attribute and
    no return value.
\<close>

subsection \<open>Values, errors, the outside world\<close>

datatype error = TypeError | AttributeError

text \<open>
  The Python values a caller may pass to the constructor. Floats are left out; among the
  values kept, \<^verbatim>\<open>v in [128, 64]\<close> and \<^verbatim>\<open>v in ['A', 'B']\<close> hold exactly of the listed ints and
  strings (\<^verbatim>\<open>True == 1\<close>, but no bool equals 128 or 64), and \<^verbatim>\<open>type(v) is int\<close> exactly of
  the ints.
\<close>

datatype pyval = PyNone | PyBool bool | PyInt int | PyStr string | PyList "pyval list"

datatype direction = GPIO_IN | GPIO_OUT

record world =
  gpio_setup :: "(int \<times> direction) list"
  gpio_out :: "(int \<times> bool) list"
  gpio_in :: "nat \<Rightarrow> int \<Rightarrow> int"
  n_in :: nat
  perf_counter :: "nat \<Rightarrow> real"
  n_perf :: nat
  sleeps :: nat

text \<open>\<^verbatim>\<open>GPIO.output(pin, level)\<close>: the call is appended to the log.\<close>

definition GPIO_output :: "int \<Rightarrow> bool \<Rightarrow> world \<Rightarrow> world" where
  "GPIO_output pin level w = w\<lparr>gpio_out := gpio_out w @ [(pin, level)]\<rparr>"

text \<open>\<^verbatim>\<open>GPIO.input(pin)\<close>: the \<open>k\<close>-th call returns \<open>gpio_in w k pin\<close>.\<close>

definition GPIO_input :: "int \<Rightarrow> world \<Rightarrow> int \<times> world" where
  "GPIO_input pin w = (gpio_in w (n_in w) pin, w\<lparr>n_in := Suc (n_in w)\<rparr>)"

text \<open>\<^verbatim>\<open>perf_counter()\<close>: the \<open>k\<close>-th call returns \<open>perf_counter w k\<close>.\<close>

definition perf_counter_call :: "world \<Rightarrow> real \<times> world" where
  "perf_counter_call w = (perf_counter w (n_perf w), w\<lparr>n_perf := Suc (n_perf w)\<rparr>)"

text \<open>The number of clock pulses issued so far: the writes of HIGH in the output log.\<close>

definition pulses :: "world \<Rightarrow> nat" where
  "pulses w = length (filter snd (gpio_out w))"

subsection \<open>\<^verbatim>\<open>LoadCell\<close>\<close>

record LoadCell =
  dout_pin :: int
  cell_debug_mode :: bool
  offset :: real
  scale_ratio :: real
  last_raw_read :: "int option"
  raw_reads :: "int list"
  reads :: "int option list"
  current_raw_read :: "int option"
  current_signed_value :: "int option option"

text \<open>
  \<open>reads\<close> holds Python values that are an int or \<^verbatim>\<open>None\<close>: \<open>int option\<close>.
  \<open>current_raw_read\<close> and \<open>current_signed_value\<close> are the attributes
  \<^verbatim>\<open>_current_raw_read\<close> and \<^verbatim>\<open>_current_signed_value\<close>, absent after \<^verbatim>\<open>__init__\<close>.
\<close>

definition LoadCell_init :: "int \<Rightarrow> bool \<Rightarrow> LoadCell" where
  "LoadCell_init pin dbg =
     \<lparr>dout_pin = pin, cell_debug_mode = dbg, offset = 0, scale_ratio = 1,
      last_raw_read = None, raw_reads = [], reads = [],
      current_raw_read = None, current_signed_value = None\<rparr>"

definition init_raw_read :: "LoadCell \<Rightarrow> LoadCell" where
  "init_raw_read c = c\<lparr>current_raw_read := Some 0\<rparr>"

text \<open>
  \<^verbatim>\<open>LoadCell._read\<close>: the left operand \<^verbatim>\<open>self._current_raw_read << 1\<close> is evaluated before
  the pin is read.
\<close>

definition LoadCell_read :: "LoadCell \<Rightarrow> world \<Rightarrow> (error + unit) \<times> LoadCell \<times> world" where
  "LoadCell_read c w =
     (case current_raw_read c of
        None \<Rightarrow> (Inl AttributeError, c, w)
      | Some r \<Rightarrow>
          (case GPIO_input (dout_pin c) w of
             (v, w') \<Rightarrow> (Inr (), c\<lparr>current_raw_read := Some (push_bit 1 r OR v)\<rparr>, w')))"

definition convert_to_signed_value :: "int \<Rightarrow> int option" where
  "convert_to_signed_value raw_value =
     (if \<not> (0x7fffff < raw_value \<and> raw_value < 0x800000) then None
      else if raw_value AND 0x800000 \<noteq> 0 then Some (- ((raw_value XOR 0xffffff) + 1))
      else Some raw_value)"

definition finish_raw_read :: "LoadCell \<Rightarrow> error + LoadCell" where
  "finish_raw_read c =
     (case current_raw_read c of
        None \<Rightarrow> Inl AttributeError
      | Some r \<Rightarrow>
          Inr (c\<lparr>raw_reads := raw_reads c @ [r],
                 current_signed_value := Some (convert_to_signed_value r),
                 reads := reads c @ [convert_to_signed_value r]\<rparr>))"

definition init_set_of_reads :: "LoadCell \<Rightarrow> LoadCell" where
  "init_set_of_reads c = c\<lparr>raw_reads := [], reads := []\<rparr>"

subsection \<open>\<^verbatim>\<open>HX711\<close>: construction\<close>

record HX711 =
  debug_mode :: bool
  dout_pins :: "int list"
  sck_pin :: int
  channel_A_gain :: pyval
  channel_select :: pyval
  load_cells :: "LoadCell list"
  pd_sck :: "int option"

text \<open>
  \<open>pd_sck\<close> is the attribute \<^verbatim>\<open>_pd_sck\<close> that \<^verbatim>\<open>_prepare_to_read\<close> and \<^verbatim>\<open>_pulse_sck_high\<close>
  read. No method of the class assigns it; \<^verbatim>\<open>_set_sck_pin\<close> assigns \<^verbatim>\<open>_sck_pin\<close>.

  \<^verbatim>\<open>convert_to_list\<close> lives in \<^verbatim>\<open>hx711.utils\<close>, which is not among the sources. It is a
  parameter \<open>ctl\<close> of the construction: \<open>ctl v\<close> is the list of ints it returns for the
  argument \<open>v\<close>, or \<open>None\<close> for its default output.
\<close>

definition set_dout_pins :: "(pyval \<Rightarrow> int list option) \<Rightarrow> pyval \<Rightarrow> error + int list" where
  "set_dout_pins ctl v = (case ctl v of None \<Rightarrow> Inl TypeError | Some ps \<Rightarrow> Inr ps)"

definition set_sck_pin :: "pyval \<Rightarrow> error + int" where
  "set_sck_pin v = (case v of PyInt i \<Rightarrow> Inr i | _ \<Rightarrow> Inl TypeError)"

definition init_gpio :: "int \<Rightarrow> int list \<Rightarrow> world \<Rightarrow> world" where
  "init_gpio sck douts w =
     w\<lparr>gpio_setup := gpio_setup w @ (sck, GPIO_OUT) # map (\<lambda>d. (d, GPIO_IN)) douts\<rparr>"

definition set_channel_a_gain :: "pyval \<Rightarrow> error + pyval" where
  "set_channel_a_gain v = (if v \<notin> set [PyInt 128, PyInt 64] then Inl TypeError else Inr v)"

definition set_channel_select :: "pyval \<Rightarrow> error + pyval" where
  "set_channel_select v = (if v \<notin> set [PyStr ''A'', PyStr ''B''] then Inl TypeError else Inr v)"

definition init_load_cells :: "int list \<Rightarrow> bool \<Rightarrow> LoadCell list" where
  "init_load_cells douts dbg = map (\<lambda>pin. LoadCell_init pin dbg) douts"

definition HX711_init ::
  "(pyval \<Rightarrow> int list option) \<Rightarrow> pyval \<Rightarrow> pyval \<Rightarrow> pyval \<Rightarrow> pyval \<Rightarrow> bool \<Rightarrow> world
     \<Rightarrow> (error + HX711) \<times> world" where
  "HX711_init ctl dout_pins_arg sck_pin_arg channel_A_gain_arg channel_select_arg dbg w =
     (case set_dout_pins ctl dout_pins_arg of
        Inl e \<Rightarrow> (Inl e, w)
      | Inr douts \<Rightarrow>
     (case set_sck_pin sck_pin_arg of
        Inl e \<Rightarrow> (Inl e, w)
      | Inr sck \<Rightarrow>
     (case set_channel_a_gain channel_A_gain_arg of
        Inl e \<Rightarrow> (Inl e, init_gpio sck douts w)
      | Inr g \<Rightarrow>
     (case set_channel_select channel_select_arg of
        Inl e \<Rightarrow> (Inl e, init_gpio sck douts w)
      | Inr ch \<Rightarrow>
          (Inr \<lparr>debug_mode = dbg, dout_pins = douts, sck_pin = sck,
                channel_A_gain = g, channel_select = ch,
                load_cells = init_load_cells douts dbg, pd_sck = None\<rparr>,
           init_gpio sck douts w)))))"

subsection \<open>\<^verbatim>\<open>HX711\<close>: the read protocol\<close>

text \<open>The inner loop of \<^verbatim>\<open>_prepare_to_read\<close>: one poll of every data pin, in order.\<close>

fun poll_pins :: "LoadCell list \<Rightarrow> bool \<Rightarrow> world \<Rightarrow> bool \<times> world" where
  "poll_pins [] ready w = (ready, w)"
| "poll_pins (c # cs) ready w =
     (case GPIO_input (dout_pin c) w of
        (v, w') \<Rightarrow> poll_pins cs (if v = 0 then False else ready) w')"

text \<open>The outer loop, \<^verbatim>\<open>for _ in range(n)\<close>, with its \<^verbatim>\<open>break\<close> and its \<^verbatim>\<open>sleep(0.01)\<close>.\<close>

fun poll_loop :: "nat \<Rightarrow> LoadCell list \<Rightarrow> bool \<Rightarrow> world \<Rightarrow> bool \<times> world" where
  "poll_loop 0 cs ready w = (ready, w)"
| "poll_loop (Suc n) cs ready w =
     (case poll_pins cs True w of
        (ready', w') \<Rightarrow>
          if ready' then (ready', w')
          else poll_loop n cs ready' (w'\<lparr>sleeps := Suc (sleeps w')\<rparr>))"

definition prepare_to_read :: "HX711 \<Rightarrow> world \<Rightarrow> (error + bool) \<times> world" where
  "prepare_to_read hx w =
     (case pd_sck hx of
        None \<Rightarrow> (Inl AttributeError, w)
      | Some p \<Rightarrow>
          (case poll_loop 20 (load_cells hx) True (GPIO_output p False w) of
             (ready, w') \<Rightarrow> (Inr ready, w')))"

definition pulse_sck_high :: "HX711 \<Rightarrow> world \<Rightarrow> (error + bool) \<times> world" where
  "pulse_sck_high hx w =
     (case perf_counter_call w of
        (pulse_start, w1) \<Rightarrow>
     (case pd_sck hx of
        None \<Rightarrow> (Inl AttributeError, w1)
      | Some p \<Rightarrow>
     (case perf_counter_call (GPIO_output p False (GPIO_output p True w1)) of
        (pulse_end, w2) \<Rightarrow>
          if pulse_end - pulse_start \<ge> 6 / 100000 then (Inr False, w2)
          else (Inr True, w2))))"

text \<open>\<^verbatim>\<open>for _ in range(n): if not self._pulse_sck_high(): return False\<close>, then \<^verbatim>\<open>return True\<close>.\<close>

fun pulse_times :: "nat \<Rightarrow> HX711 \<Rightarrow> world \<Rightarrow> (error + bool) \<times> world" where
  "pulse_times 0 hx w = (Inr True, w)"
| "pulse_times (Suc n) hx w =
     (case pulse_sck_high hx w of
        (Inl e, w') \<Rightarrow> (Inl e, w')
      | (Inr ok, w') \<Rightarrow> if \<not> ok then (Inr False, w') else pulse_times n hx w')"

definition num_pulses :: "HX711 \<Rightarrow> nat" where
  "num_pulses hx =
     (if channel_select hx = PyStr ''A'' \<and> channel_A_gain hx = PyInt 128 then 1
      else if channel_select hx = PyStr ''A'' \<and> channel_A_gain hx = PyInt 64 then 3
      else 2)"

definition write_channel_gain :: "HX711 \<Rightarrow> world \<Rightarrow> (error + bool) \<times> world" where
  "write_channel_gain hx w = pulse_times (num_pulses hx) hx w"

text \<open>\<^verbatim>\<open>for load_cell in self._load_cells: load_cell._read()\<close>\<close>

fun read_cells :: "LoadCell list \<Rightarrow> world \<Rightarrow> (error + unit) \<times> LoadCell list \<times> world" where
  "read_cells [] w = (Inr (), [], w)"
| "read_cells (c # cs) w =
     (case LoadCell_read c w of
        (Inl e, c', w') \<Rightarrow> (Inl e, c' # cs, w')
      | (Inr u, c', w') \<Rightarrow>
          (case read_cells cs w' of (r, cs', w'') \<Rightarrow> (r, c' # cs', w'')))"

text \<open>
  The loop \<^verbatim>\<open>for _ in range(n)\<close> of \<^verbatim>\<open>HX711._read\<close>: a clock pulse, then one sample of every
  load cell. \<open>Inr False\<close> is the \<^verbatim>\<open>return False\<close> inside the loop, \<open>Inr True\<close> the loop
  running to its end.
\<close>

fun read_bits :: "nat \<Rightarrow> HX711 \<Rightarrow> world \<Rightarrow> (error + bool) \<times> HX711 \<times> world" where
  "read_bits 0 hx w = (Inr True, hx, w)"
| "read_bits (Suc n) hx w =
     (case pulse_sck_high hx w of
        (Inl e, w1) \<Rightarrow> (Inl e, hx, w1)
      | (Inr ok, w1) \<Rightarrow>
          if \<not> ok then (Inr False, hx, w1)
          else
            (case read_cells (load_cells hx) w1 of
               (Inl e, cs, w2) \<Rightarrow> (Inl e, hx\<lparr>load_cells := cs\<rparr>, w2)
             | (Inr u, cs, w2) \<Rightarrow> read_bits n (hx\<lparr>load_cells := cs\<rparr>) w2))"

text \<open>\<^verbatim>\<open>for load_cell in self._load_cells: load_cell._finish_raw_read()\<close>\<close>

fun finish_cells :: "LoadCell list \<Rightarrow> error option \<times> LoadCell list" where
  "finish_cells [] = (None, [])"
| "finish_cells (c # cs) =
     (case finish_raw_read c of
        Inl e \<Rightarrow> (Some e, c # cs)
      | Inr c' \<Rightarrow> (case finish_cells cs of (r, cs') \<Rightarrow> (r, c' # cs')))"

definition HX711_read :: "HX711 \<Rightarrow> world \<Rightarrow> (error + bool) \<times> HX711 \<times> world" where
  "HX711_read hx w =
     (case prepare_to_read hx w of
        (Inl e, w1) \<Rightarrow> (Inl e, hx, w1)
      | (Inr ready, w1) \<Rightarrow>
          if \<not> ready then (Inr False, hx, w1)
          else
            (case read_bits 24 (hx\<lparr>load_cells := map init_raw_read (load_cells hx)\<rparr>) w1 of
               (Inl e, hx2, w2) \<Rightarrow> (Inl e, hx2, w2)
             | (Inr ok, hx2, w2) \<Rightarrow>
                 if \<not> ok then (Inr False, hx2, w2)
                 else
                   (case finish_cells (load_cells hx2) of
                      (Some e, cs) \<Rightarrow> (Inl e, hx2\<lparr>load_cells := cs\<rparr>, w2)
                    | (None, cs) \<Rightarrow>
                        (case write_channel_gain (hx2\<lparr>load_cells := cs\<rparr>) w2 of
                           (Inl e, w3) \<Rightarrow> (Inl e, hx2\<lparr>load_cells := cs\<rparr>, w3)
                         | (Inr ok', w3) \<Rightarrow>
                             if \<not> ok' then (Inr False, hx2\<lparr>load_cells := cs\<rparr>, w3)
                             else (Inr True, hx2\<lparr>load_cells := cs\<rparr>, w3)))))"

subsection \<open>The phases of a read cycle\<close>

text \<open>
  The 24-pulse loop of \<^verbatim>\<open>HX711._read\<close> in the state in which \<^verbatim>\<open>_read\<close> enters it: after
  \<^verbatim>\<open>_prepare_to_read\<close>, with \<^verbatim>\<open>_init_raw_read\<close> done on every load cell.
\<close>

definition sampling :: "HX711 \<Rightarrow> world \<Rightarrow> (error + bool) \<times> HX711 \<times> world" where
  "sampling hx w =
     read_bits 24 (hx\<lparr>load_cells := map init_raw_read (load_cells hx)\<rparr>)
       (snd (prepare_to_read hx w))"

text \<open>\<open>n\<close> successive calls of \<^verbatim>\<open>LoadCell._read\<close> on one load cell.\<close>

fun sample_times :: "nat \<Rightarrow> LoadCell \<Rightarrow> world \<Rightarrow> (error + unit) \<times> LoadCell \<times> world" where
  "sample_times 0 c w = (Inr (), c, w)"
| "sample_times (Suc n) c w =
     (case LoadCell_read c w of
        (Inl e, c', w') \<Rightarrow> (Inl e, c', w')
      | (Inr u, c', w') \<Rightarrow> sample_times n c' w')"

text \<open>
  What successive \<^verbatim>\<open>LoadCell._read\<close> steps make of the accumulator \<open>acc\<close> when the pin
  reads \<open>bs\<close>, first read first: each step is \<^verbatim>\<open>(acc << 1) | bit\<close>.
\<close>

definition shift_bits :: "int \<Rightarrow> int list \<Rightarrow> int" where
  "shift_bits acc bs = foldl (\<lambda>a b. push_bit 1 a OR b) acc bs"

text \<open>
  The values that the 24 \<^verbatim>\<open>GPIO.input\<close> calls for the pin of load cell \<open>i\<close> return in the
  cycle that starts in \<open>w\<close>. After the polls of \<^verbatim>\<open>_prepare_to_read\<close>, pulse \<open>k\<close> is followed
  by one call for each load cell, in list order, so the call of cell \<open>i\<close> after pulse
  \<open>k\<close> is call number \<open>k * N + i\<close> from there, \<open>N\<close> the number of load cells.
\<close>

definition own_samples :: "HX711 \<Rightarrow> world \<Rightarrow> nat \<Rightarrow> int list" where
  "own_samples hx w i =
     map (\<lambda>k. gpio_in w (n_in (snd (prepare_to_read hx w)) + k * length (load_cells hx) + i)
                (dout_pin (load_cells hx ! i))) [0..<24]"

text \<open>The two histories of a load cell have the same length.\<close>

definition aligned :: "LoadCell \<Rightarrow> bool" where
  "aligned c = (length (raw_reads c) = length (reads c))"

text \<open>The MSB-first value of 24 bits: bit \<open>i\<close> weighs \<open>2 ^ (23 - i)\<close>.\<close>

definition msb_first :: "(nat \<Rightarrow> int) \<Rightarrow> int" where
  "msb_first b = (\<Sum>i<24. b i * 2 ^ (23 - i))"

subsection \<open>Sample states\<close>

text \<open>
  A controller with one load cell on pin 5 and the clock on pin 6, as \<^verbatim>\<open>HX711(5, 6, g, ch)\<close>
  leaves it, and the same after the assignment \<^verbatim>\<open>hx._pd_sck = 6\<close> from outside the class.
  A world in which every pin always reads \<open>level\<close> and successive \<^verbatim>\<open>perf_counter\<close> readings
  are \<open>dt\<close> apart.
\<close>

definition built_hx :: "pyval \<Rightarrow> pyval \<Rightarrow> HX711" where
  "built_hx g ch =
     \<lparr>debug_mode = False, dout_pins = [5], sck_pin = 6,
      channel_A_gain = g, channel_select = ch,
      load_cells = init_load_cells [5] False, pd_sck = None\<rparr>"

definition patched_hx :: "pyval \<Rightarrow> pyval \<Rightarrow> HX711" where
  "patched_hx g ch = (built_hx g ch)\<lparr>pd_sck := Some 6\<rparr>"

definition steady_world :: "int \<Rightarrow> real \<Rightarrow> world" where
  "steady_world level dt =
     \<lparr>gpio_setup = [], gpio_out = [], gpio_in = (\<lambda>k pin. level), n_in = 0,
      perf_counter = (\<lambda>k. dt * real k), n_perf = 0, sleeps = 0\<rparr>"

text \<open>
  A controller with two load cells, on pins 5 and 7, and \<^verbatim>\<open>_pd_sck\<close> assigned. A world
  in which pin 5 reads 1 in the first ten \<^verbatim>\<open>GPIO.input\<close> calls and 0 afterwards, pin 7
  reads 1 in the first 26 calls and 0 afterwards, and no time passes. A world in which
  every pin reads 1 and the \<^verbatim>\<open>perf_counter\<close> readings stand at 0 up to reading \<open>k0\<close> and
  then advance by a second for each reading.
\<close>

definition twin_hx :: HX711 where
  "twin_hx =
     \<lparr>debug_mode = False, dout_pins = [5, 7], sck_pin = 6,
      channel_A_gain = PyInt 128, channel_select = PyStr ''A'',
      load_cells = init_load_cells [5, 7] False, pd_sck = Some 6\<rparr>"

definition pattern_world :: world where
  "pattern_world =
     \<lparr>gpio_setup = [], gpio_out = [],
      gpio_in = (\<lambda>k pin. if pin = 5 then (if k < 10 then 1 else 0)
                           else (if k < 26 then 1 else 0)),
      n_in = 0, perf_counter = (\<lambda>k. 0), n_perf = 0, sleeps = 0\<rparr>"

definition stalling_world :: "nat \<Rightarrow> world" where
  "stalling_world k0 =
     \<lparr>gpio_setup = [], gpio_out = [], gpio_in = (\<lambda>k pin. 1), n_in = 0,
      perf_counter = (\<lambda>k. if k < k0 then 0 else real k), n_perf = 0, sleeps = 0\<rparr>"

section \<open>Decoding\<close>

text \<open>
  C1. The claim: decoding is the two's-complement reading of a 24-bit value, so that
  \<open>0x7FFFFF\<close> decodes to \<open>8388607\<close>, \<open>0x800000\<close> to \<open>-8388608\<close> and \<open>0xFFFFFF\<close> to \<open>-1\<close>.
  The code returns \<^verbatim>\<open>None\<close> at each of the three: its validity test
  \<^verbatim>\<open>not (0x7fffff < raw_value < 0x800000)\<close> holds of them, and the branch it guards returns
  \<^verbatim>\<open>None\<close> before the conversion is reached.
\<close>

theorem convert_to_signed_value_boundaries:
  "convert_to_signed_value 0x7FFFFF = None
   \<and> convert_to_signed_value 0x800000 = None
   \<and> convert_to_signed_value 0xFFFFFF = None
   \<and> convert_to_signed_value 0 = None"
  by (simp add: convert_to_signed_value_def)

text \<open>
  C2. The claim: no 24-bit value reaches the branch that returns \<^verbatim>\<open>None\<close>. In the code
  every integer reaches it: no integer lies strictly between \<open>0x7fffff\<close> and \<open>0x800000\<close>,
  so the negated test is true of every input and the result is always \<^verbatim>\<open>None\<close>.
\<close>

theorem convert_to_signed_value_always_None:
  "convert_to_signed_value raw_value = None"
  by (simp add: convert_to_signed_value_def)

section \<open>Construction\<close>

lemma HX711_init_rejects:
  "g \<notin> {PyInt 128, PyInt 64} \<or> ch \<notin> {PyStr ''A'', PyStr ''B''}
     \<Longrightarrow> fst (HX711_init ctl d s g ch dbg w) = Inl TypeError"
  by (auto simp: HX711_init_def set_dout_pins_def set_sck_pin_def set_channel_a_gain_def
        set_channel_select_def split: option.splits pyval.splits sum.splits)

lemma HX711_init_accepts:
  "g \<in> {PyInt 128, PyInt 64} \<Longrightarrow> ch \<in> {PyStr ''A'', PyStr ''B''} \<Longrightarrow> ctl d = Some ps
     \<Longrightarrow> fst (HX711_init ctl d (PyInt k) g ch dbg w) =
          Inr \<lparr>debug_mode = dbg, dout_pins = ps, sck_pin = k,
                channel_A_gain = g, channel_select = ch,
                load_cells = init_load_cells ps dbg, pd_sck = None\<rparr>"
  by (auto simp: HX711_init_def set_dout_pins_def set_sck_pin_def set_channel_a_gain_def
        set_channel_select_def)

lemma HX711_init_pd_sck:
  "fst (HX711_init ctl d s g ch dbg w) = Inr hx \<Longrightarrow> pd_sck hx = None"
  by (auto simp: HX711_init_def split: sum.splits)

text \<open>
  C9, as the claim states it: channel B with gain 128 is rejected at construction. The
  code accepts it: \<^verbatim>\<open>HX711(5, 6, 128, 'B')\<close> returns a controller. Gain and channel are
  checked one after the other, each against its own list.
\<close>

theorem HX711_init_B_128_accepted:
  "fst (HX711_init (\<lambda>v. Some [5]) (PyInt 5) (PyInt 6) (PyInt 128) (PyStr ''B'') False
          (steady_world 1 0))
   = Inr (built_hx (PyInt 128) (PyStr ''B''))"
  by (simp add: HX711_init_def set_dout_pins_def set_sck_pin_def set_channel_a_gain_def
        set_channel_select_def built_hx_def)

text \<open>
  C9, amended: construction fails with \<^verbatim>\<open>TypeError\<close>, and returns no controller, whenever
  the gain is not 128 or 64 or the channel is not \<open>A\<close> or \<open>B\<close>; the two are checked
  independently, so every gain in \<open>{128, 64}\<close> with every channel in \<open>{A, B}\<close> is accepted
  (given data pins that \<^verbatim>\<open>convert_to_list\<close> accepts and an int clock pin), channel B
  with gain 128 included.
\<close>

theorem HX711_init_validation:
  "(g \<notin> {PyInt 128, PyInt 64} \<or> ch \<notin> {PyStr ''A'', PyStr ''B''}
      \<longrightarrow> fst (HX711_init ctl d s g ch dbg w) = Inl TypeError)
   \<and> (g \<in> {PyInt 128, PyInt 64} \<and> ch \<in> {PyStr ''A'', PyStr ''B''} \<and> ctl d = Some ps
      \<longrightarrow> fst (HX711_init ctl d (PyInt k) g ch dbg w) =
            Inr \<lparr>debug_mode = dbg, dout_pins = ps, sck_pin = k,
                  channel_A_gain = g, channel_select = ch,
                  load_cells = init_load_cells ps dbg, pd_sck = None\<rparr>)"
  using HX711_init_rejects [of g ch ctl d s dbg w] HX711_init_accepts [of g ch ctl d ps k dbg w]
  by blast

theorem HX711_init_validation_witness:
  "fst (HX711_init (\<lambda>v. Some [5]) (PyInt 5) (PyInt 6) (PyInt 32) (PyStr ''A'') False
          (steady_world 1 0)) = Inl TypeError
   \<and> fst (HX711_init (\<lambda>v. Some [5]) (PyInt 5) (PyInt 6) (PyInt 128) (PyStr ''C'') False
          (steady_world 1 0)) = Inl TypeError
   \<and> fst (HX711_init (\<lambda>v. Some [5]) (PyInt 5) (PyInt 6) (PyInt 64) (PyStr ''B'') True
          (steady_world 1 0))
       = Inr \<lparr>debug_mode = True, dout_pins = [5], sck_pin = 6,
               channel_A_gain = PyInt 64, channel_select = PyStr ''B'',
               load_cells = init_load_cells [5] True, pd_sck = None\<rparr>"
  using
    HX711_init_validation [of "PyInt 32" "PyStr ''A''" "\<lambda>v. Some [5]" "PyInt 5" "PyInt 6"
      False "steady_world 1 0" "[5]" 6]
    HX711_init_validation [of "PyInt 128" "PyStr ''C''" "\<lambda>v. Some [5]" "PyInt 5" "PyInt 6"
      False "steady_world 1 0" "[5]" 6]
    HX711_init_validation [of "PyInt 64" "PyStr ''B''" "\<lambda>v. Some [5]" "PyInt 5" "PyInt 6"
      True "steady_world 1 0" "[5]" 6]
  by simp

section \<open>The clock attribute\<close>

lemma num_pulses_Suc: "num_pulses hx = Suc (num_pulses hx - 1)"
  by (simp add: num_pulses_def)

text \<open>
  C3. The claim: on every constructed controller the four operations report ready-wait
  and timing failures as \<^verbatim>\<open>False\<close> and raise nothing. On every constructed controller each
  of the four raises \<^verbatim>\<open>AttributeError\<close>, whatever the pins and the clock do:
  \<^verbatim>\<open>_prepare_to_read\<close> and \<^verbatim>\<open>_pulse_sck_high\<close> read \<^verbatim>\<open>self._pd_sck\<close>, and the constructor
  stores the clock pin as \<^verbatim>\<open>self._sck_pin\<close>.
\<close>

theorem constructed_controller_raises:
  assumes "fst (HX711_init ctl d s g ch dbg wa) = Inr hx"
  shows "fst (prepare_to_read hx w) = Inl AttributeError
       \<and> fst (pulse_sck_high hx w) = Inl AttributeError
       \<and> fst (write_channel_gain hx w) = Inl AttributeError
       \<and> fst (HX711_read hx w) = Inl AttributeError"
proof -
  have n: "pd_sck hx = None" using assms by (rule HX711_init_pd_sck)
  have a: "fst (prepare_to_read hx w) = Inl AttributeError"
    by (simp add: prepare_to_read_def n)
  have b: "fst (pulse_sck_high hx w) = Inl AttributeError"
    by (simp add: pulse_sck_high_def n split: prod.splits)
  have c: "fst (write_channel_gain hx w) = Inl AttributeError"
    unfolding write_channel_gain_def
    by (subst num_pulses_Suc) (use b in \<open>auto split: prod.splits sum.splits\<close>)
  have d: "fst (HX711_read hx w) = Inl AttributeError"
    using a by (auto simp: HX711_read_def split: prod.splits sum.splits)
  show ?thesis using a b c d by simp
qed

theorem constructed_controller_raises_witness:
  "fst (HX711_init (\<lambda>v. Some [5]) (PyInt 5) (PyInt 6) (PyInt 128) (PyStr ''A'') False
          (steady_world 0 0)) = Inr (built_hx (PyInt 128) (PyStr ''A''))
   \<and> fst (prepare_to_read (built_hx (PyInt 128) (PyStr ''A'')) (steady_world 0 0))
        = Inl AttributeError
   \<and> fst (pulse_sck_high (built_hx (PyInt 128) (PyStr ''A'')) (steady_world 0 0))
        = Inl AttributeError
   \<and> fst (write_channel_gain (built_hx (PyInt 128) (PyStr ''A'')) (steady_world 0 0))
        = Inl AttributeError
   \<and> fst (HX711_read (built_hx (PyInt 128) (PyStr ''A'')) (steady_world 0 0))
        = Inl AttributeError"
proof -
  have h: "fst (HX711_init (\<lambda>v. Some [5]) (PyInt 5) (PyInt 6) (PyInt 128) (PyStr ''A'') False
          (steady_world 0 0)) = Inr (built_hx (PyInt 128) (PyStr ''A''))"
    by (simp add: HX711_init_def set_dout_pins_def set_sck_pin_def set_channel_a_gain_def
        set_channel_select_def built_hx_def)
  from h constructed_controller_raises [OF h, of "steady_world 0 0"] show ?thesis by simp
qed

section \<open>The ready wait\<close>

text \<open>
  C4. The claim: \<^verbatim>\<open>_prepare_to_read\<close> returns \<^verbatim>\<open>True\<close> as soon as every data pin reads LOW,
  and \<^verbatim>\<open>False\<close> after exactly 20 polls when the pins never read LOW. The code, run where
  \<^verbatim>\<open>_pd_sck\<close> has been assigned, does the opposite: with the pin always HIGH it returns
  \<^verbatim>\<open>True\<close> after one poll and no sleep, and with the pin always LOW it returns \<^verbatim>\<open>False\<close>
  after 20 polls and 20 sleeps. The loop sets \<^verbatim>\<open>ready = False\<close> when a pin reads 0.
\<close>

theorem prepare_to_read_inverted:
  "prepare_to_read (patched_hx (PyInt 128) (PyStr ''A'')) (steady_world 1 0)
     = (Inr True, (steady_world 1 0)\<lparr>gpio_out := [(6, False)], n_in := 1\<rparr>)
   \<and> prepare_to_read (patched_hx (PyInt 128) (PyStr ''A'')) (steady_world 0 0)
     = (Inr False, (steady_world 0 0)\<lparr>gpio_out := [(6, False)], n_in := 20, sleeps := 20\<rparr>)"
  by (simp add: prepare_to_read_def patched_hx_def built_hx_def steady_world_def
        GPIO_output_def GPIO_input_def init_load_cells_def LoadCell_init_def eval_nat_numeral)

section \<open>Frame lemmas\<close>

lemma poll_pins_frame:
  "poll_pins cs r w = (b, w') \<Longrightarrow>
     gpio_out w' = gpio_out w \<and> gpio_in w' = gpio_in w \<and> n_in w' = n_in w + length cs
     \<and> sleeps w' = sleeps w"
  by (induction cs arbitrary: r w) (auto simp: GPIO_input_def split: prod.splits)

lemma poll_loop_frame:
  "poll_loop n cs r w = (b, w') \<Longrightarrow> gpio_out w' = gpio_out w \<and> gpio_in w' = gpio_in w"
proof (induction n arbitrary: r w)
  case 0
  then show ?case by simp
next
  case (Suc n)
  obtain r1 w1 where p: "poll_pins cs True w = (r1, w1)" by (cases "poll_pins cs True w")
  note f = poll_pins_frame[OF p]
  show ?case
  proof (cases r1)
    case True
    with Suc.prems p f show ?thesis by simp
  next
    case False
    with Suc.prems p have "poll_loop n cs r1 (w1\<lparr>sleeps := Suc (sleeps w1)\<rparr>) = (b, w')" by simp
    from Suc.IH[OF this] f show ?thesis by simp
  qed
qed

lemma prepare_frame:
  "prepare_to_read hx w = (r, w') \<Longrightarrow> pulses w' = pulses w \<and> gpio_in w' = gpio_in w"
  by (auto simp: prepare_to_read_def pulses_def GPIO_output_def
        split: option.splits prod.splits dest!: poll_loop_frame)

lemma pulse_frame:
  "pulse_sck_high hx w = (Inr b, w') \<Longrightarrow>
     pulses w' = Suc (pulses w) \<and> gpio_in w' = gpio_in w \<and> n_in w' = n_in w"
  by (auto simp: pulse_sck_high_def perf_counter_call_def GPIO_output_def pulses_def
        split: option.splits if_splits)

lemma pulse_frame_any:
  "pulse_sck_high hx w = (r, w') \<Longrightarrow> gpio_in w' = gpio_in w \<and> n_in w' = n_in w"
  by (auto simp: pulse_sck_high_def perf_counter_call_def GPIO_output_def
        split: option.splits if_splits)

lemma pulse_times_count:
  "pulse_times n hx w = (Inr True, w') \<Longrightarrow> pulses w' = pulses w + n"
proof (induction n arbitrary: w)
  case 0
  then show ?case by simp
next
  case (Suc n)
  obtain r w1 where p: "pulse_sck_high hx w = (r, w1)" by (cases "pulse_sck_high hx w")
  with Suc.prems obtain q: "r = Inr True" and t: "pulse_times n hx w1 = (Inr True, w')"
    by (auto split: sum.splits if_splits)
  from pulse_frame[OF p[unfolded q]] Suc.IH[OF t] show ?case by simp
qed

lemma LoadCell_read_frame:
  "LoadCell_read c w = (r, c', w') \<Longrightarrow>
     raw_reads c' = raw_reads c \<and> reads c' = reads c \<and> dout_pin c' = dout_pin c
     \<and> gpio_out w' = gpio_out w \<and> gpio_in w' = gpio_in w"
  by (auto simp: LoadCell_read_def GPIO_input_def split: option.splits)

lemma read_cells_frame:
  "read_cells cs w = (r, cs', w') \<Longrightarrow>
     map raw_reads cs' = map raw_reads cs \<and> map reads cs' = map reads cs
     \<and> map dout_pin cs' = map dout_pin cs
     \<and> gpio_out w' = gpio_out w \<and> gpio_in w' = gpio_in w"
proof (induction cs arbitrary: w r cs' w')
  case Nil
  then show ?case by simp
next
  case (Cons c cs)
  obtain r1 c1 w1 where h: "LoadCell_read c w = (r1, c1, w1)" by (cases "LoadCell_read c w")
  note f = LoadCell_read_frame[OF h]
  show ?case
  proof (cases r1)
    case (Inl e)
    with Cons.prems h f show ?thesis by auto
  next
    case (Inr u)
    obtain r2 cs2 w2 where t: "read_cells cs w1 = (r2, cs2, w2)" by (cases "read_cells cs w1")
    from Cons.prems h Inr t have "cs' = c1 # cs2" "w' = w2" by auto
    with Cons.IH[OF t] f show ?thesis by simp
  qed
qed

lemma read_bits_frame:
  "read_bits n hx w = (r, hx', w') \<Longrightarrow>
     map raw_reads (load_cells hx') = map raw_reads (load_cells hx)
     \<and> map reads (load_cells hx') = map reads (load_cells hx)
     \<and> map dout_pin (load_cells hx') = map dout_pin (load_cells hx)
     \<and> pd_sck hx' = pd_sck hx \<and> channel_select hx' = channel_select hx
     \<and> channel_A_gain hx' = channel_A_gain hx
     \<and> gpio_in w' = gpio_in w"
proof (induction n arbitrary: hx w)
  case 0
  then show ?case by simp
next
  case (Suc n)
  obtain r1 w1 where p: "pulse_sck_high hx w = (r1, w1)" by (cases "pulse_sck_high hx w")
  show ?case
  proof (cases r1)
    case (Inl e)
    with Suc.prems p pulse_frame_any[OF p] show ?thesis by auto
  next
    case (Inr ok)
    note pf = pulse_frame[OF p[unfolded Inr]]
    show ?thesis
    proof (cases ok)
      case False
      with Suc.prems p Inr pf show ?thesis by auto
    next
      case True
      obtain r2 cs2 w2 where c: "read_cells (load_cells hx) w1 = (r2, cs2, w2)"
        by (cases "read_cells (load_cells hx) w1")
      note cf = read_cells_frame[OF c]
      show ?thesis
      proof (cases r2)
        case (Inl e)
        with Suc.prems p Inr True c cf pf show ?thesis by auto
      next
        case (Inr u)
        with Suc.prems p \<open>r1 = Inr ok\<close> True c
        have "read_bits n (hx\<lparr>load_cells := cs2\<rparr>) w2 = (r, hx', w')" by simp
        from Suc.IH[OF this] cf pf show ?thesis by simp
      qed
    qed
  qed
qed

lemma read_bits_count:
  "read_bits n hx w = (Inr True, hx', w') \<Longrightarrow> pulses w' = pulses w + n"
proof (induction n arbitrary: hx w)
  case 0
  then show ?case by simp
next
  case (Suc n)
  obtain r1 w1 where p: "pulse_sck_high hx w = (r1, w1)" by (cases "pulse_sck_high hx w")
  obtain r2 cs2 w2 where c: "read_cells (load_cells hx) w1 = (r2, cs2, w2)"
    by (cases "read_cells (load_cells hx) w1")
  from Suc.prems p c have q: "r1 = Inr True"
    and t: "read_bits n (hx\<lparr>load_cells := cs2\<rparr>) w2 = (Inr True, hx', w')"
    by (auto split: sum.splits if_splits)
  from pulse_frame[OF p[unfolded q]] read_cells_frame[OF c] Suc.IH[OF t]
  show ?case by (simp add: pulses_def)
qed

lemma HX711_read_count:
  assumes "fst (HX711_read hx w) = Inr True"
  shows "pulses (snd (snd (HX711_read hx w))) = pulses w + 24 + num_pulses hx"
proof -
  obtain r1 w1 where p: "prepare_to_read hx w = (r1, w1)" by (cases "prepare_to_read hx w")
  obtain r2 hx2 w2 where b:
    "read_bits 24 (hx\<lparr>load_cells := map init_raw_read (load_cells hx)\<rparr>) w1 = (r2, hx2, w2)"
    by (cases "read_bits 24 (hx\<lparr>load_cells := map init_raw_read (load_cells hx)\<rparr>) w1")
  obtain r3 cs3 where f: "finish_cells (load_cells hx2) = (r3, cs3)"
    by (cases "finish_cells (load_cells hx2)")
  obtain r4 w4 where g: "write_channel_gain (hx2\<lparr>load_cells := cs3\<rparr>) w2 = (r4, w4)"
    by (cases "write_channel_gain (hx2\<lparr>load_cells := cs3\<rparr>) w2")
  from assms p b f g have r: "r1 = Inr True" "r2 = Inr True" "r3 = None" "r4 = Inr True"
    and res: "snd (snd (HX711_read hx w)) = w4"
    by (auto simp: HX711_read_def split: sum.splits if_splits option.splits)
  have n: "num_pulses (hx2\<lparr>load_cells := cs3\<rparr>) = num_pulses hx"
    using read_bits_frame[OF b] by (simp add: num_pulses_def)
  from prepare_frame[OF p] read_bits_count[OF b[unfolded r]]
    pulse_times_count[OF g[unfolded write_channel_gain_def r]] n res
  show ?thesis by simp
qed

section \<open>Pulse count of a read cycle\<close>

lemmas run_defs =
  HX711_read_def prepare_to_read_def patched_hx_def built_hx_def steady_world_def
  GPIO_output_def GPIO_input_def init_load_cells_def LoadCell_init_def eval_nat_numeral
  pulse_sck_high_def perf_counter_call_def LoadCell_read_def init_raw_read_def
  finish_raw_read_def write_channel_gain_def num_pulses_def
  sampling_def twin_hx_def pattern_world_def stalling_world_def

text \<open>
  C5. A read cycle that returns \<^verbatim>\<open>True\<close> has issued 24 clock pulses and then the trailing
  pulses of the configuration: 25 in all for channel A with gain 128, 27 for channel A
  with gain 64, 26 for channel B. A pulse is a write of HIGH to the clock pin.
\<close>

theorem HX711_read_pulse_total:
  assumes "fst (HX711_read hx w) = Inr True"
  shows "pulses (snd (snd (HX711_read hx w))) = pulses w + 24 + num_pulses hx
       \<and> (channel_select hx = PyStr ''A'' \<and> channel_A_gain hx = PyInt 128
            \<longrightarrow> pulses (snd (snd (HX711_read hx w))) = pulses w + 25)
       \<and> (channel_select hx = PyStr ''A'' \<and> channel_A_gain hx = PyInt 64
            \<longrightarrow> pulses (snd (snd (HX711_read hx w))) = pulses w + 27)
       \<and> (channel_select hx = PyStr ''B''
            \<longrightarrow> pulses (snd (snd (HX711_read hx w))) = pulses w + 26)"
  using HX711_read_count [OF assms] by (simp add: num_pulses_def)

theorem HX711_read_pulse_total_witness:
  "fst (HX711_read (patched_hx (PyInt 128) (PyStr ''A'')) (steady_world 1 0)) = Inr True
   \<and> pulses (snd (snd (HX711_read (patched_hx (PyInt 128) (PyStr ''A'')) (steady_world 1 0))))
       = 25
   \<and> fst (HX711_read (patched_hx (PyInt 64) (PyStr ''A'')) (steady_world 1 0)) = Inr True
   \<and> pulses (snd (snd (HX711_read (patched_hx (PyInt 64) (PyStr ''A'')) (steady_world 1 0))))
       = 27
   \<and> fst (HX711_read (patched_hx (PyInt 128) (PyStr ''B'')) (steady_world 1 0)) = Inr True
   \<and> pulses (snd (snd (HX711_read (patched_hx (PyInt 128) (PyStr ''B'')) (steady_world 1 0))))
       = 26"
proof -
  have a: "fst (HX711_read (patched_hx (PyInt 128) (PyStr ''A'')) (steady_world 1 0)) = Inr True"
    by (simp add: run_defs)
  have b: "fst (HX711_read (patched_hx (PyInt 64) (PyStr ''A'')) (steady_world 1 0)) = Inr True"
    by (simp add: run_defs)
  have c: "fst (HX711_read (patched_hx (PyInt 128) (PyStr ''B'')) (steady_world 1 0)) = Inr True"
    by (simp add: run_defs)
  have s: "channel_select (patched_hx g ch) = ch" "channel_A_gain (patched_hx g ch) = g"
    for g ch by (simp_all add: patched_hx_def built_hx_def)
  have z: "pulses (steady_world 1 0) = 0" by (simp add: pulses_def steady_world_def)
  from a b c HX711_read_pulse_total [OF a] HX711_read_pulse_total [OF b]
    HX711_read_pulse_total [OF c]
  show ?thesis by (simp add: s z)
qed

section \<open>Composition of the sampled bits\<close>

lemma shift_bits_simps [simp]:
  "shift_bits a [] = a" "shift_bits a (b # bs) = shift_bits (push_bit 1 a OR b) bs"
  "shift_bits a (bs @ [b]) = push_bit 1 (shift_bits a bs) OR b"
  by (simp_all add: shift_bits_def)

lemma shift_in_bit: "b \<in> {0, 1} \<Longrightarrow> push_bit 1 (x::int) OR b = 2 * x + b"
  by (auto simp: or_one_eq)

lemma shift_bits_sum:
  "set bs \<subseteq> {0, 1} \<Longrightarrow>
     shift_bits a bs = a * 2 ^ length bs + (\<Sum>i<length bs. bs ! i * 2 ^ (length bs - 1 - i))"
proof (induction bs rule: rev_induct)
  case Nil
  then show ?case by simp
next
  case (snoc b bs)
  let ?n = "length bs"
  have b: "b \<in> {0, 1}" and bs: "set bs \<subseteq> {0, 1}" using snoc.prems by auto
  have e: "(\<Sum>i<?n. (bs @ [b]) ! i * 2 ^ (?n - i)) = 2 * (\<Sum>i<?n. bs ! i * 2 ^ (?n - 1 - i))"
    unfolding sum_distrib_left
  proof (rule sum.cong)
    fix i assume "i \<in> {..<?n}"
    then have i: "i < ?n" by simp
    then have "(2::int) ^ (?n - i) = 2 * 2 ^ (?n - 1 - i)"
      by (metis Suc_diff_Suc diff_Suc_eq_diff_pred power_Suc diff_commute)
    with i show "(bs @ [b]) ! i * 2 ^ (?n - i) = 2 * (bs ! i * 2 ^ (?n - 1 - i))"
      by (simp add: nth_append)
  qed simp
  have "shift_bits a (bs @ [b]) = 2 * shift_bits a bs + b"
    using b by (simp only: shift_bits_simps shift_in_bit)
  also have "\<dots> = 2 * (a * 2 ^ ?n + (\<Sum>i<?n. bs ! i * 2 ^ (?n - 1 - i))) + b"
    using snoc.IH[OF bs] by simp
  finally show ?case using e by (simp add: algebra_simps)
qed

lemma shift_bits_bound:
  "set bs \<subseteq> {0, 1} \<Longrightarrow> 0 \<le> shift_bits 0 bs \<and> shift_bits 0 bs < 2 ^ length bs"
proof (induction bs rule: rev_induct)
  case Nil
  then show ?case by simp
next
  case (snoc b bs)
  have b: "b \<in> {0, 1}" and bs: "set bs \<subseteq> {0, 1}" using snoc.prems by auto
  have "shift_bits 0 (bs @ [b]) = 2 * shift_bits 0 bs + b"
    using b by (simp only: shift_bits_simps shift_in_bit)
  with snoc.IH[OF bs] b show ?case by auto
qed

lemma read_cells_ok:
  assumes "\<forall>c\<in>set cs. current_raw_read c \<noteq> None"
  shows "\<exists>cs'. read_cells cs w = (Inr (), cs', w\<lparr>n_in := n_in w + length cs\<rparr>)
          \<and> length cs' = length cs
          \<and> (\<forall>i<length cs. cs' ! i = (cs ! i)\<lparr>current_raw_read :=
                 Some (push_bit 1 (the (current_raw_read (cs ! i)))
                        OR gpio_in w (n_in w + i) (dout_pin (cs ! i)))\<rparr>)"
  using assms
proof (induction cs arbitrary: w)
  case Nil
  then show ?case by simp
next
  case (Cons c cs)
  from Cons.prems obtain r where r: "current_raw_read c = Some r" by auto
  let ?w1 = "w\<lparr>n_in := Suc (n_in w)\<rparr>"
  let ?c1 = "c\<lparr>current_raw_read := Some (push_bit 1 r OR gpio_in w (n_in w) (dout_pin c))\<rparr>"
  have h: "LoadCell_read c w = (Inr (), ?c1, ?w1)"
    by (simp add: LoadCell_read_def GPIO_input_def r)
  from Cons.prems have "\<forall>c\<in>set cs. current_raw_read c \<noteq> None" by simp
  from Cons.IH[OF this, of ?w1] obtain cs1 where
    t: "read_cells cs ?w1 = (Inr (), cs1, ?w1\<lparr>n_in := n_in ?w1 + length cs\<rparr>)"
    and l: "length cs1 = length cs"
    and e: "\<forall>i<length cs. cs1 ! i = (cs ! i)\<lparr>current_raw_read :=
                 Some (push_bit 1 (the (current_raw_read (cs ! i)))
                        OR gpio_in ?w1 (n_in ?w1 + i) (dout_pin (cs ! i)))\<rparr>"
    by blast
  have "read_cells (c # cs) w = (Inr (), ?c1 # cs1, w\<lparr>n_in := n_in w + length (c # cs)\<rparr>)"
    using h t by simp
  moreover have "length (?c1 # cs1) = length (c # cs)" using l by simp
  moreover have "\<forall>i<length (c # cs). (?c1 # cs1) ! i = ((c # cs) ! i)\<lparr>current_raw_read :=
                 Some (push_bit 1 (the (current_raw_read ((c # cs) ! i)))
                        OR gpio_in w (n_in w + i) (dout_pin ((c # cs) ! i)))\<rparr>"
  proof (intro allI impI)
    fix i assume "i < length (c # cs)"
    then show "(?c1 # cs1) ! i = ((c # cs) ! i)\<lparr>current_raw_read :=
                 Some (push_bit 1 (the (current_raw_read ((c # cs) ! i)))
                        OR gpio_in w (n_in w + i) (dout_pin ((c # cs) ! i)))\<rparr>"
      using e r by (cases i) simp_all
  qed
  ultimately show ?case by blast
qed

lemma read_bits_ok:
  assumes "\<forall>c\<in>set (load_cells hx). current_raw_read c \<noteq> None"
    and "read_bits n hx w = (Inr True, hx', w')"
  shows "length (load_cells hx') = length (load_cells hx)
       \<and> (\<forall>i<length (load_cells hx). load_cells hx' ! i = (load_cells hx ! i)\<lparr>current_raw_read :=
            Some (shift_bits (the (current_raw_read (load_cells hx ! i)))
                   (map (\<lambda>k. gpio_in w (n_in w + k * length (load_cells hx) + i)
                                (dout_pin (load_cells hx ! i))) [0..<n]))\<rparr>)"
  using assms
proof (induction n arbitrary: hx w)
  case 0
  then show ?case by auto
next
  case (Suc n)
  let ?cs = "load_cells hx"
  let ?N = "length ?cs"
  obtain r1 w1 where p: "pulse_sck_high hx w = (r1, w1)" by (cases "pulse_sck_high hx w")
  from read_cells_ok[OF Suc.prems(1), of w1] obtain cs1 where
    c: "read_cells ?cs w1 = (Inr (), cs1, w1\<lparr>n_in := n_in w1 + ?N\<rparr>)"
    and l: "length cs1 = ?N"
    and e: "\<forall>i<?N. cs1 ! i = (?cs ! i)\<lparr>current_raw_read :=
                 Some (push_bit 1 (the (current_raw_read (?cs ! i)))
                        OR gpio_in w1 (n_in w1 + i) (dout_pin (?cs ! i)))\<rparr>"
    by blast
  let ?w2 = "w1\<lparr>n_in := n_in w1 + ?N\<rparr>"
  let ?hx1 = "hx\<lparr>load_cells := cs1\<rparr>"
  from Suc.prems(2) p c have q: "r1 = Inr True"
    and t: "read_bits n ?hx1 ?w2 = (Inr True, hx', w')"
    by (auto split: sum.splits if_splits)
  note pf = pulse_frame[OF p[unfolded q]]
  have a: "\<forall>c\<in>set (load_cells ?hx1). current_raw_read c \<noteq> None"
    using e l by (auto simp: in_set_conv_nth)
  note ih = Suc.IH[OF a t]
  have u: "[0..<Suc n] = 0 # map Suc [0..<n]"
    by (simp add: upt_conv_Cons map_Suc_upt del: upt_Suc)
  show ?case
  proof (intro conjI allI impI)
    show "length (load_cells hx') = ?N" using ih l by simp
  next
    fix i assume i: "i < ?N"
    with ih l have "load_cells hx' ! i = (cs1 ! i)\<lparr>current_raw_read :=
            Some (shift_bits (the (current_raw_read (cs1 ! i)))
                   (map (\<lambda>k. gpio_in ?w2 (n_in ?w2 + k * ?N + i) (dout_pin (cs1 ! i))) [0..<n]))\<rparr>"
      by simp
    also have "\<dots> = (?cs ! i)\<lparr>current_raw_read :=
            Some (shift_bits (the (current_raw_read (?cs ! i)))
                   (map (\<lambda>k. gpio_in w (n_in w + k * ?N + i) (dout_pin (?cs ! i))) [0..<Suc n]))\<rparr>"
      using e i pf by (simp add: u comp_def add.commute add.left_commute del: upt_Suc)
    finally show "load_cells hx' ! i = (?cs ! i)\<lparr>current_raw_read :=
            Some (shift_bits (the (current_raw_read (?cs ! i)))
                   (map (\<lambda>k. gpio_in w (n_in w + k * ?N + i) (dout_pin (?cs ! i))) [0..<Suc n]))\<rparr>" .
  qed
qed

lemma finish_cells_ok:
  assumes "\<forall>c\<in>set cs. current_raw_read c \<noteq> None"
  shows "finish_cells cs = (None, map (\<lambda>c. c\<lparr>raw_reads := raw_reads c @ [the (current_raw_read c)],
                 current_signed_value := Some (convert_to_signed_value (the (current_raw_read c))),
                 reads := reads c @ [convert_to_signed_value (the (current_raw_read c))]\<rparr>) cs)"
  using assms by (induction cs) (auto simp: finish_raw_read_def)

section \<open>The sampling loop\<close>

lemma sampled_cells:
  assumes p: "fst (prepare_to_read hx w) = Inr True"
    and b: "fst (sampling hx w) = Inr True"
  shows "\<exists>cs3. finish_cells (load_cells (fst (snd (sampling hx w)))) = (None, cs3)
       \<and> length cs3 = length (load_cells hx)
       \<and> (\<forall>i<length (load_cells hx).
            raw_reads (cs3 ! i) = raw_reads (load_cells hx ! i) @ [shift_bits 0 (own_samples hx w i)]
          \<and> reads (cs3 ! i) = reads (load_cells hx ! i)
                @ [convert_to_signed_value (shift_bits 0 (own_samples hx w i))])"
proof -
  let ?cs = "load_cells hx"
  let ?hx1 = "hx\<lparr>load_cells := map init_raw_read ?cs\<rparr>"
  obtain w1 where p1: "prepare_to_read hx w = (Inr True, w1)"
    using p by (cases "prepare_to_read hx w") simp
  obtain hx2 w2 where b1: "read_bits 24 ?hx1 w1 = (Inr True, hx2, w2)"
    using b p1 by (cases "read_bits 24 ?hx1 w1") (simp add: sampling_def)
  have s: "fst (snd (sampling hx w)) = hx2" using p1 b1 by (simp add: sampling_def)
  have a: "\<forall>c\<in>set (load_cells ?hx1). current_raw_read c \<noteq> None"
    by (simp add: init_raw_read_def)
  from read_bits_ok[OF a b1]
  have l: "length (load_cells hx2) = length ?cs"
    and e: "\<forall>i<length ?cs. load_cells hx2 ! i = (init_raw_read (?cs ! i))\<lparr>current_raw_read :=
            Some (shift_bits 0
                   (map (\<lambda>k. gpio_in w1 (n_in w1 + k * length ?cs + i)
                                (dout_pin (?cs ! i))) [0..<24]))\<rparr>"
    by (simp_all add: init_raw_read_def)
  have g: "gpio_in w1 = gpio_in w" using prepare_frame[OF p1] by simp
  have e': "\<forall>i<length ?cs. load_cells hx2 ! i = (init_raw_read (?cs ! i))\<lparr>current_raw_read :=
            Some (shift_bits 0 (own_samples hx w i))\<rparr>"
    using e by (simp add: own_samples_def p1 g)
  have c: "\<forall>c\<in>set (load_cells hx2). current_raw_read c \<noteq> None"
    using e' l by (auto simp: in_set_conv_nth)
  note f = finish_cells_ok[OF c]
  show ?thesis
    unfolding s
    by (rule exI, intro conjI, rule f) (use l e' in \<open>simp_all add: init_raw_read_def\<close>)
qed

lemma HX711_read_after_sampling:
  assumes p: "fst (prepare_to_read hx w) = Inr True"
    and b: "fst (sampling hx w) = Inr True"
    and f: "finish_cells (load_cells (fst (snd (sampling hx w)))) = (None, cs3)"
  shows "load_cells (fst (snd (HX711_read hx w))) = cs3"
    and "fst (HX711_read hx w)
          = fst (write_channel_gain (fst (snd (sampling hx w))) (snd (snd (sampling hx w))))"
proof -
  let ?hx1 = "hx\<lparr>load_cells := map init_raw_read (load_cells hx)\<rparr>"
  obtain w1 where p1: "prepare_to_read hx w = (Inr True, w1)"
    using p by (cases "prepare_to_read hx w") simp
  obtain hx2 w2 where b1: "read_bits 24 ?hx1 w1 = (Inr True, hx2, w2)"
    using b p1 by (cases "read_bits 24 ?hx1 w1") (simp add: sampling_def)
  have s: "sampling hx w = (Inr True, hx2, w2)" using p1 b1 by (simp add: sampling_def)
  have wc: "write_channel_gain (hx2\<lparr>load_cells := cs3\<rparr>) w2 = write_channel_gain hx2 w2"
  proof -
    have "pulse_sck_high (hx2\<lparr>load_cells := cs3\<rparr>) = pulse_sck_high hx2"
      by (rule ext) (simp add: pulse_sck_high_def)
    then have "pulse_times n (hx2\<lparr>load_cells := cs3\<rparr>) v = pulse_times n hx2 v" for n v
      by (induction n arbitrary: v) (auto split: prod.splits sum.splits)
    then show ?thesis by (simp add: write_channel_gain_def num_pulses_def)
  qed
  obtain r4 w4 where g: "write_channel_gain hx2 w2 = (r4, w4)"
    by (cases "write_channel_gain hx2 w2")
  from f s have f': "finish_cells (load_cells hx2) = (None, cs3)" by simp
  show "load_cells (fst (snd (HX711_read hx w))) = cs3"
    using p1 b1 f' g wc by (auto simp: HX711_read_def split: sum.splits)
  show "fst (HX711_read hx w)
          = fst (write_channel_gain (fst (snd (sampling hx w))) (snd (snd (sampling hx w))))"
    using p1 b1 f' g wc s by (auto simp: HX711_read_def split: sum.splits)
qed

lemma HX711_read_True_phases:
  assumes "fst (HX711_read hx w) = Inr True"
  shows "fst (prepare_to_read hx w) = Inr True \<and> fst (sampling hx w) = Inr True"
  using assms
  by (auto simp: HX711_read_def sampling_def split: prod.splits sum.splits if_splits)

lemma HX711_read_entries:
  assumes "fst (HX711_read hx w) = Inr True"
  shows "length (load_cells (fst (snd (HX711_read hx w)))) = length (load_cells hx)
       \<and> (\<forall>i<length (load_cells hx).
            raw_reads (load_cells (fst (snd (HX711_read hx w))) ! i)
              = raw_reads (load_cells hx ! i) @ [shift_bits 0 (own_samples hx w i)]
          \<and> reads (load_cells (fst (snd (HX711_read hx w))) ! i)
              = reads (load_cells hx ! i)
                  @ [convert_to_signed_value (shift_bits 0 (own_samples hx w i))])"
proof -
  note ph = HX711_read_True_phases[OF assms]
  from sampled_cells[OF ph[THEN conjunct1] ph[THEN conjunct2]] obtain cs3 where
    f: "finish_cells (load_cells (fst (snd (sampling hx w)))) = (None, cs3)"
    and r: "length cs3 = length (load_cells hx)
       \<and> (\<forall>i<length (load_cells hx).
            raw_reads (cs3 ! i) = raw_reads (load_cells hx ! i) @ [shift_bits 0 (own_samples hx w i)]
          \<and> reads (cs3 ! i) = reads (load_cells hx ! i)
                @ [convert_to_signed_value (shift_bits 0 (own_samples hx w i))])"
    by blast
  from HX711_read_after_sampling(1)[OF ph[THEN conjunct1] ph[THEN conjunct2] f] r
  show ?thesis by simp
qed

lemma aligned_lists:
  assumes "map raw_reads cs' = map raw_reads cs" "map reads cs' = map reads cs"
    and "\<forall>c\<in>set cs. aligned c"
  shows "\<forall>c\<in>set cs'. aligned c"
proof
  fix c assume "c \<in> set cs'"
  then obtain i where i: "i < length cs'" "c = cs' ! i" by (auto simp: in_set_conv_nth)
  from assms(1) have l: "length cs' = length cs" by (rule map_eq_imp_length_eq)
  from assms(1) i l have "raw_reads c = raw_reads (cs ! i)" by (metis nth_map)
  moreover from assms(2) i l have "reads c = reads (cs ! i)" by (metis nth_map)
  moreover from assms(3) i l have "aligned (cs ! i)" by simp
  ultimately show "aligned c" by (simp add: aligned_def)
qed

lemma finish_cells_aligned:
  "\<forall>c\<in>set cs. aligned c \<Longrightarrow> \<forall>c\<in>set (snd (finish_cells cs)). aligned c"
  by (induction cs)
     (auto simp: finish_raw_read_def aligned_def split: option.splits prod.splits)

lemma HX711_read_aligned:
  assumes "\<forall>c\<in>set (load_cells hx). aligned c"
  shows "\<forall>c\<in>set (load_cells (fst (snd (HX711_read hx w)))). aligned c"
proof -
  let ?hx1 = "hx\<lparr>load_cells := map init_raw_read (load_cells hx)\<rparr>"
  obtain r1 w1 where p: "prepare_to_read hx w = (r1, w1)" by (cases "prepare_to_read hx w")
  obtain r2 hx2 w2 where b: "read_bits 24 ?hx1 w1 = (r2, hx2, w2)"
    by (cases "read_bits 24 ?hx1 w1")
  obtain r3 cs3 where f: "finish_cells (load_cells hx2) = (r3, cs3)"
    by (cases "finish_cells (load_cells hx2)")
  have a1: "\<forall>c\<in>set (load_cells ?hx1). aligned c"
    using assms by (simp add: aligned_def init_raw_read_def)
  have a2: "\<forall>c\<in>set (load_cells hx2). aligned c"
    using read_bits_frame[OF b] a1 aligned_lists by blast
  have a3: "\<forall>c\<in>set cs3. aligned c" using finish_cells_aligned[OF a2] f by simp
  have "load_cells (fst (snd (HX711_read hx w))) \<in> {load_cells hx, load_cells hx2, cs3}"
    using p b f by (auto simp: HX711_read_def split: sum.splits option.splits prod.splits)
  with assms a2 a3 show ?thesis by auto
qed

lemma sample_times_ok:
  "current_raw_read c = Some r \<Longrightarrow>
     sample_times n c w =
       (Inr (), c\<lparr>current_raw_read :=
                   Some (shift_bits r (map (\<lambda>k. gpio_in w (n_in w + k) (dout_pin c)) [0..<n]))\<rparr>,
        w\<lparr>n_in := n_in w + n\<rparr>)"
proof (induction n arbitrary: c w r)
  case 0
  then show ?case by simp
next
  case (Suc n)
  have u: "[0..<Suc n] = 0 # map Suc [0..<n]"
    by (simp add: upt_conv_Cons map_Suc_upt del: upt_Suc)
  let ?c1 = "c\<lparr>current_raw_read := Some (push_bit 1 r OR gpio_in w (n_in w) (dout_pin c))\<rparr>"
  have h: "LoadCell_read c w = (Inr (), ?c1, w\<lparr>n_in := Suc (n_in w)\<rparr>)"
    by (simp add: LoadCell_read_def GPIO_input_def Suc.prems)
  have "current_raw_read ?c1 = Some (push_bit 1 r OR gpio_in w (n_in w) (dout_pin c))" by simp
  from Suc.IH[OF this, of "w\<lparr>n_in := Suc (n_in w)\<rparr>"] h
  show ?case by (simp add: u comp_def del: upt_Suc)
qed

lemma msb_sum_map:
  "(\<Sum>i<n. map f [0..<n] ! i * (2::int) ^ (n - 1 - i)) = (\<Sum>i<n. f i * 2 ^ (n - 1 - i))"
  by (rule sum.cong) simp_all

lemma shift_bits_msb_first:
  assumes "length bs = 24" "set bs \<subseteq> {0, 1}"
  shows "shift_bits 0 bs = msb_first (\<lambda>k. bs ! k)"
    and "0 \<le> msb_first (\<lambda>k. bs ! k)" and "msb_first (\<lambda>k. bs ! k) < 2 ^ 24"
proof -
  show e: "shift_bits 0 bs = msb_first (\<lambda>k. bs ! k)"
    using shift_bits_sum[OF assms(2), of 0] assms(1) by (simp add: msb_first_def)
  from shift_bits_bound[OF assms(2)] assms(1) e
  show "0 \<le> msb_first (\<lambda>k. bs ! k)" and "msb_first (\<lambda>k. bs ! k) < 2 ^ 24" by simp_all
qed

section \<open>Failed cycles\<close>

text \<open>
  C6. When a read cycle fails before the load cells are finalised, because
  \<^verbatim>\<open>_prepare_to_read\<close> returns \<^verbatim>\<open>False\<close> or because one of the 24 data pulses trips the
  60 microsecond guard, \<^verbatim>\<open>_read\<close> returns \<^verbatim>\<open>False\<close> and the raw and signed histories of
  every load cell are what they were: the bits shifted in so far stay in
  \<^verbatim>\<open>_current_raw_read\<close> and reach no history.
\<close>

theorem failed_read_appends_nothing:
  assumes "fst (prepare_to_read hx w) = Inr False
         \<or> (fst (prepare_to_read hx w) = Inr True \<and> fst (sampling hx w) = Inr False)"
  shows "fst (HX711_read hx w) = Inr False
       \<and> map raw_reads (load_cells (fst (snd (HX711_read hx w)))) = map raw_reads (load_cells hx)
       \<and> map reads (load_cells (fst (snd (HX711_read hx w)))) = map reads (load_cells hx)"
proof -
  let ?hx1 = "hx\<lparr>load_cells := map init_raw_read (load_cells hx)\<rparr>"
  obtain r1 w1 where p: "prepare_to_read hx w = (r1, w1)" by (cases "prepare_to_read hx w")
  obtain r2 hx2 w2 where b: "read_bits 24 ?hx1 w1 = (r2, hx2, w2)"
    by (cases "read_bits 24 ?hx1 w1")
  from assms show ?thesis
  proof
    assume "fst (prepare_to_read hx w) = Inr False"
    with p show ?thesis by (simp add: HX711_read_def)
  next
    assume "fst (prepare_to_read hx w) = Inr True \<and> fst (sampling hx w) = Inr False"
    with p b have r: "r1 = Inr True" "r2 = Inr False" by (simp_all add: sampling_def)
    have "HX711_read hx w = (Inr False, hx2, w2)" using p b r by (simp add: HX711_read_def)
    moreover have "map raw_reads (load_cells hx2) = map raw_reads (load_cells hx)"
      "map reads (load_cells hx2) = map reads (load_cells hx)"
      using read_bits_frame[OF b] by (simp_all add: init_raw_read_def comp_def)
    ultimately show ?thesis by simp
  qed
qed

theorem failed_read_appends_nothing_witness:
  "fst (prepare_to_read (patched_hx (PyInt 128) (PyStr ''A'')) (steady_world 0 0)) = Inr False
   \<and> fst (HX711_read (patched_hx (PyInt 128) (PyStr ''A'')) (steady_world 0 0)) = Inr False
   \<and> map raw_reads (load_cells (fst (snd
        (HX711_read (patched_hx (PyInt 128) (PyStr ''A'')) (steady_world 0 0))))) = [[]]
   \<and> fst (prepare_to_read (patched_hx (PyInt 128) (PyStr ''A'')) (stalling_world 10)) = Inr True
   \<and> fst (sampling (patched_hx (PyInt 128) (PyStr ''A'')) (stalling_world 10)) = Inr False
   \<and> fst (HX711_read (patched_hx (PyInt 128) (PyStr ''A'')) (stalling_world 10)) = Inr False
   \<and> map raw_reads (load_cells (fst (snd
        (HX711_read (patched_hx (PyInt 128) (PyStr ''A'')) (stalling_world 10))))) = [[]]
   \<and> map reads (load_cells (fst (snd
        (HX711_read (patched_hx (PyInt 128) (PyStr ''A'')) (stalling_world 10))))) = [[]]
   \<and> map current_raw_read (load_cells (fst (snd
        (HX711_read (patched_hx (PyInt 128) (PyStr ''A'')) (stalling_world 10))))) = [Some 31]"
proof -
  let ?hx = "patched_hx (PyInt 128) (PyStr ''A'')"
  have a: "fst (prepare_to_read ?hx (steady_world 0 0)) = Inr False"
    by (simp add: run_defs)
  have b: "fst (prepare_to_read ?hx (stalling_world 10)) = Inr True"
    by (simp add: run_defs)
  have c: "fst (sampling ?hx (stalling_world 10)) = Inr False"
    by (simp add: run_defs)
  have d: "map current_raw_read (load_cells (fst (snd (HX711_read ?hx (stalling_world 10)))))
            = [Some 31]"
    by (simp add: run_defs)
  have l: "map raw_reads (load_cells ?hx) = [[]]" "map reads (load_cells ?hx) = [[]]"
    by (simp_all add: run_defs)
  from a b c d failed_read_appends_nothing [of ?hx "steady_world 0 0"]
    failed_read_appends_nothing [of ?hx "stalling_world 10"]
  show ?thesis by (simp add: l)
qed

text \<open>
  C7. When the 24 data pulses succeed, so that every load cell is finalised, and a
  trailing pulse of \<^verbatim>\<open>_write_channel_gain\<close> then trips the guard, \<^verbatim>\<open>_read\<close> returns \<^verbatim>\<open>False\<close>
  and every load cell keeps the raw and the signed entry appended in this cycle.
\<close>

theorem gain_failure_keeps_entries:
  assumes "fst (prepare_to_read hx w) = Inr True"
    and "fst (sampling hx w) = Inr True"
    and "fst (write_channel_gain (fst (snd (sampling hx w))) (snd (snd (sampling hx w))))
           = Inr False"
  shows "fst (HX711_read hx w) = Inr False
       \<and> length (load_cells (fst (snd (HX711_read hx w)))) = length (load_cells hx)
       \<and> (\<forall>i<length (load_cells hx).
            raw_reads (load_cells (fst (snd (HX711_read hx w))) ! i)
              = raw_reads (load_cells hx ! i) @ [shift_bits 0 (own_samples hx w i)]
          \<and> reads (load_cells (fst (snd (HX711_read hx w))) ! i)
              = reads (load_cells hx ! i)
                  @ [convert_to_signed_value (shift_bits 0 (own_samples hx w i))])"
proof -
  from sampled_cells[OF assms(1,2)] obtain cs3 where
    f: "finish_cells (load_cells (fst (snd (sampling hx w)))) = (None, cs3)"
    and r: "length cs3 = length (load_cells hx)
       \<and> (\<forall>i<length (load_cells hx).
            raw_reads (cs3 ! i) = raw_reads (load_cells hx ! i) @ [shift_bits 0 (own_samples hx w i)]
          \<and> reads (cs3 ! i) = reads (load_cells hx ! i)
                @ [convert_to_signed_value (shift_bits 0 (own_samples hx w i))])"
    by blast
  from HX711_read_after_sampling[OF assms(1,2) f] assms(3) r
  show ?thesis by simp
qed

theorem gain_failure_keeps_entries_witness:
  "fst (prepare_to_read (patched_hx (PyInt 64) (PyStr ''A'')) (stalling_world 50)) = Inr True
   \<and> fst (sampling (patched_hx (PyInt 64) (PyStr ''A'')) (stalling_world 50)) = Inr True
   \<and> fst (HX711_read (patched_hx (PyInt 64) (PyStr ''A'')) (stalling_world 50)) = Inr False
   \<and> raw_reads (load_cells (fst (snd
        (HX711_read (patched_hx (PyInt 64) (PyStr ''A'')) (stalling_world 50)))) ! 0)
       = [16777215]
   \<and> reads (load_cells (fst (snd
        (HX711_read (patched_hx (PyInt 64) (PyStr ''A'')) (stalling_world 50)))) ! 0)
       = [None]"
proof -
  let ?hx = "patched_hx (PyInt 64) (PyStr ''A'')"
  let ?w = "stalling_world 50"
  have a: "fst (prepare_to_read ?hx ?w) = Inr True"
    by (simp add: run_defs)
  have b: "fst (sampling ?hx ?w) = Inr True"
    by (simp add: run_defs)
  have c: "fst (write_channel_gain (fst (snd (sampling ?hx ?w))) (snd (snd (sampling ?hx ?w))))
             = Inr False"
    by (simp add: run_defs)
  have l: "load_cells ?hx = [LoadCell_init 5 False]" by (simp add: run_defs)
  have v: "shift_bits 0 (own_samples ?hx ?w 0) = 16777215"
    by (simp add: own_samples_def run_defs)
  from a b gain_failure_keeps_entries [OF a b c]
  show ?thesis
    by (simp add: l v LoadCell_init_def convert_to_signed_value_def)
qed

section \<open>Lockstep and alignment of the histories\<close>

text \<open>
  C8. For any number of load cells on the shared clock, a read cycle that returns
  \<^verbatim>\<open>True\<close> appends exactly one entry to the raw history and one to the signed history of
  every load cell; the raw entry of a cell is the composition of the 24 values read
  from its own pin, and the signed entry is the decoding of that raw entry (the
  \<^verbatim>\<open>None\<close> marker when decoding gives none). Every operation keeps the two histories of a
  load cell equally long: construction, \<^verbatim>\<open>_init_set_of_reads\<close>, \<^verbatim>\<open>_init_raw_read\<close>,
  \<^verbatim>\<open>LoadCell._read\<close>, \<^verbatim>\<open>_finish_raw_read\<close>, and \<^verbatim>\<open>HX711._read\<close> whatever its outcome.
\<close>

theorem lockstep_histories:
  "(fst (HX711_read hx w) = Inr True \<longrightarrow>
      length (load_cells (fst (snd (HX711_read hx w)))) = length (load_cells hx)
      \<and> (\<forall>i<length (load_cells hx).
            raw_reads (load_cells (fst (snd (HX711_read hx w))) ! i)
              = raw_reads (load_cells hx ! i) @ [shift_bits 0 (own_samples hx w i)]
          \<and> reads (load_cells (fst (snd (HX711_read hx w))) ! i)
              = reads (load_cells hx ! i)
                  @ [convert_to_signed_value (shift_bits 0 (own_samples hx w i))]))
   \<and> ((\<forall>c\<in>set (load_cells hx). aligned c)
        \<longrightarrow> (\<forall>c\<in>set (load_cells (fst (snd (HX711_read hx w)))). aligned c))
   \<and> aligned (LoadCell_init pin dbg)
   \<and> aligned (init_set_of_reads c)
   \<and> (aligned c \<longrightarrow>
        aligned (init_raw_read c)
        \<and> aligned (fst (snd (LoadCell_read c w)))
        \<and> (\<forall>c'. finish_raw_read c = Inr c' \<longrightarrow> aligned c'))"
proof -
  have "aligned (LoadCell_init pin dbg)" "aligned (init_set_of_reads c)"
    by (simp_all add: aligned_def LoadCell_init_def init_set_of_reads_def)
  moreover have "aligned c \<Longrightarrow> aligned (init_raw_read c)"
    by (simp add: aligned_def init_raw_read_def)
  moreover have "aligned c \<Longrightarrow> aligned (fst (snd (LoadCell_read c w)))"
    by (simp add: aligned_def LoadCell_read_def GPIO_input_def split: option.splits)
  moreover have "aligned c \<Longrightarrow> finish_raw_read c = Inr c' \<Longrightarrow> aligned c'" for c'
    by (auto simp: aligned_def finish_raw_read_def split: option.splits)
  ultimately show ?thesis
    using HX711_read_entries [of hx w] HX711_read_aligned [of hx w] by blast
qed

theorem lockstep_histories_witness:
  "fst (HX711_read twin_hx pattern_world) = Inr True
   \<and> length (load_cells (fst (snd (HX711_read twin_hx pattern_world)))) = 2
   \<and> raw_reads (load_cells (fst (snd (HX711_read twin_hx pattern_world))) ! 0) = [15728640]
   \<and> raw_reads (load_cells (fst (snd (HX711_read twin_hx pattern_world))) ! 1) = [16773120]
   \<and> reads (load_cells (fst (snd (HX711_read twin_hx pattern_world))) ! 0) = [None]
   \<and> reads (load_cells (fst (snd (HX711_read twin_hx pattern_world))) ! 1) = [None]
   \<and> list_all aligned (load_cells (fst (snd (HX711_read twin_hx pattern_world))))
   \<and> aligned (init_raw_read (LoadCell_init 5 False))
   \<and> aligned (fst (snd (LoadCell_read (LoadCell_init 5 False) pattern_world)))"
proof -
  have a: "fst (HX711_read twin_hx pattern_world) = Inr True"
    by (simp add: run_defs)
  have l: "load_cells twin_hx = [LoadCell_init 5 False, LoadCell_init 7 False]"
    by (simp add: twin_hx_def init_load_cells_def)
  have g: "aligned (LoadCell_init p d)" for p d by (simp add: aligned_def LoadCell_init_def)
  have v0: "shift_bits 0 (own_samples twin_hx pattern_world 0) = 15728640"
    by (simp add: own_samples_def run_defs)
  have v1: "shift_bits 0 (own_samples twin_hx pattern_world 1) = 16773120"
    by (simp add: own_samples_def run_defs)
  have n: "convert_to_signed_value x = None" for x by (simp add: convert_to_signed_value_def)
  note t = lockstep_histories [of twin_hx pattern_world 5 False "LoadCell_init 5 False"]
  from t a have e: "\<forall>i<length (load_cells twin_hx).
            raw_reads (load_cells (fst (snd (HX711_read twin_hx pattern_world))) ! i)
              = raw_reads (load_cells twin_hx ! i) @ [shift_bits 0 (own_samples twin_hx pattern_world i)]
          \<and> reads (load_cells (fst (snd (HX711_read twin_hx pattern_world))) ! i)
              = reads (load_cells twin_hx ! i)
                  @ [convert_to_signed_value (shift_bits 0 (own_samples twin_hx pattern_world i))]"
    by blast
  have e0: "raw_reads (load_cells (fst (snd (HX711_read twin_hx pattern_world))) ! 0) = [15728640]"
    "reads (load_cells (fst (snd (HX711_read twin_hx pattern_world))) ! 0) = [None]"
    using e[rule_format, of 0] by (simp_all add: l v0 n LoadCell_init_def)
  have e1: "raw_reads (load_cells (fst (snd (HX711_read twin_hx pattern_world))) ! 1) = [16773120]"
    "reads (load_cells (fst (snd (HX711_read twin_hx pattern_world))) ! 1) = [None]"
    using e[rule_format, of 1] v1 by (simp_all add: l n LoadCell_init_def)
  from t a have "length (load_cells (fst (snd (HX711_read twin_hx pattern_world)))) = 2"
    by (simp add: l)
  moreover from t have "list_all aligned (load_cells (fst (snd (HX711_read twin_hx pattern_world))))"
    by (simp add: l g list_all_iff)
  moreover from t have "aligned (init_raw_read (LoadCell_init 5 False))"
    "aligned (fst (snd (LoadCell_read (LoadCell_init 5 False) pattern_world)))"
    by (simp_all add: g)
  ultimately show ?thesis using a e0 e1 by simp
qed

section \<open>The accumulator\<close>

text \<open>
  C10. Starting from \<^verbatim>\<open>_init_raw_read\<close> (accumulator 0), 24 \<^verbatim>\<open>LoadCell._read\<close> steps whose
  pin reads are each 0 or 1 leave the accumulator at the MSB-first value of the bits,
  the sum of \<open>bit i * 2 ^ (23 - i)\<close>; \<^verbatim>\<open>_finish_raw_read\<close> appends that value to the raw
  history, and it lies in \<open>[0, 2 ^ 24)\<close>. The same holds of the entry a successful
  \<^verbatim>\<open>HX711._read\<close> appends for a load cell whose 24 samples are each 0 or 1.
\<close>

theorem accumulator_msb_first:
  "((\<forall>k<24. gpio_in w (n_in w + k) (dout_pin c) \<in> {0, 1}) \<longrightarrow>
      fst (sample_times 24 (init_raw_read c) w) = Inr ()
      \<and> current_raw_read (fst (snd (sample_times 24 (init_raw_read c) w)))
          = Some (msb_first (\<lambda>k. gpio_in w (n_in w + k) (dout_pin c)))
      \<and> (\<exists>c'. finish_raw_read (fst (snd (sample_times 24 (init_raw_read c) w))) = Inr c'
             \<and> raw_reads c'
                 = raw_reads c @ [msb_first (\<lambda>k. gpio_in w (n_in w + k) (dout_pin c))])
      \<and> 0 \<le> msb_first (\<lambda>k. gpio_in w (n_in w + k) (dout_pin c))
      \<and> msb_first (\<lambda>k. gpio_in w (n_in w + k) (dout_pin c)) < 2 ^ 24)
   \<and> (fst (HX711_read hx v) = Inr True \<and> i < length (load_cells hx)
        \<and> set (own_samples hx v i) \<subseteq> {0, 1} \<longrightarrow>
      raw_reads (load_cells (fst (snd (HX711_read hx v))) ! i)
          = raw_reads (load_cells hx ! i) @ [msb_first (\<lambda>k. own_samples hx v i ! k)]
      \<and> 0 \<le> msb_first (\<lambda>k. own_samples hx v i ! k)
      \<and> msb_first (\<lambda>k. own_samples hx v i ! k) < 2 ^ 24)"
proof (intro conjI impI)
  let ?f = "\<lambda>k. gpio_in w (n_in w + k) (dout_pin c)"
  let ?bs = "map ?f [0..<24]"
  assume h: "\<forall>k<24. gpio_in w (n_in w + k) (dout_pin c) \<in> {0, 1}"
  have len: "length ?bs = 24" by simp
  have bits: "set ?bs \<subseteq> {0, 1}" using h by auto
  have m: "msb_first (\<lambda>k. ?bs ! k) = msb_first ?f"
    unfolding msb_first_def by (rule sum.cong) simp_all
  note sb = shift_bits_msb_first[OF len bits, unfolded m]
  have st: "sample_times 24 (init_raw_read c) w =
       (Inr (), (init_raw_read c)\<lparr>current_raw_read := Some (msb_first ?f)\<rparr>,
        w\<lparr>n_in := n_in w + 24\<rparr>)"
    using sample_times_ok[of "init_raw_read c" 0 24 w]
    by (simp add: init_raw_read_def sb(1))
  show "fst (sample_times 24 (init_raw_read c) w) = Inr ()" by (simp add: st)
  show "current_raw_read (fst (snd (sample_times 24 (init_raw_read c) w))) = Some (msb_first ?f)"
    by (simp add: st)
  show "\<exists>c'. finish_raw_read (fst (snd (sample_times 24 (init_raw_read c) w))) = Inr c'
             \<and> raw_reads c' = raw_reads c @ [msb_first ?f]"
    unfolding st by (simp add: finish_raw_read_def init_raw_read_def)
  show "0 \<le> msb_first ?f" by (rule sb(2))
  show "msb_first ?f < 2 ^ 24" by (rule sb(3))
next
  assume h: "fst (HX711_read hx v) = Inr True \<and> i < length (load_cells hx)
        \<and> set (own_samples hx v i) \<subseteq> {0, 1}"
  have len: "length (own_samples hx v i) = 24" by (simp add: own_samples_def)
  note sb = shift_bits_msb_first[OF len h[THEN conjunct2, THEN conjunct2]]
  from HX711_read_entries[of hx v] h sb(1)
  show "raw_reads (load_cells (fst (snd (HX711_read hx v))) ! i)
          = raw_reads (load_cells hx ! i) @ [msb_first (\<lambda>k. own_samples hx v i ! k)]"
    by simp
  show "0 \<le> msb_first (\<lambda>k. own_samples hx v i ! k)" by (rule sb(2))
  show "msb_first (\<lambda>k. own_samples hx v i ! k) < 2 ^ 24" by (rule sb(3))
qed

theorem accumulator_msb_first_witness:
  "set (map (\<lambda>k. gpio_in pattern_world (n_in pattern_world + k)
                  (dout_pin (LoadCell_init 5 False))) [0..<24]) \<subseteq> {0, 1}
   \<and> fst (sample_times 24 (init_raw_read (LoadCell_init 5 False)) pattern_world) = Inr ()
   \<and> current_raw_read (fst (snd (sample_times 24 (init_raw_read (LoadCell_init 5 False))
        pattern_world))) = Some 16760832
   \<and> msb_first (\<lambda>k. gpio_in pattern_world (n_in pattern_world + k)
        (dout_pin (LoadCell_init 5 False))) = 16760832
   \<and> fst (HX711_read twin_hx pattern_world) = Inr True
   \<and> set (own_samples twin_hx pattern_world 1) \<subseteq> {0, 1}
   \<and> raw_reads (load_cells (fst (snd (HX711_read twin_hx pattern_world))) ! 1)
       = [msb_first (\<lambda>k. own_samples twin_hx pattern_world 1 ! k)]
   \<and> msb_first (\<lambda>k. own_samples twin_hx pattern_world 1 ! k) < 2 ^ 24"
proof -
  let ?c = "LoadCell_init 5 False"
  have h: "\<forall>k<24. gpio_in pattern_world (n_in pattern_world + k) (dout_pin ?c) \<in> {0, 1}"
    by (simp add: pattern_world_def LoadCell_init_def)
  have ev: "current_raw_read (fst (snd (sample_times 24 (init_raw_read ?c) pattern_world)))
              = Some 16760832"
    by (simp add: run_defs)
  have a: "fst (HX711_read twin_hx pattern_world) = Inr True"
    by (simp add: run_defs)
  have s: "set (own_samples twin_hx pattern_world 1) \<subseteq> {0, 1}"
    by (simp add: own_samples_def run_defs)
  have l: "load_cells twin_hx = [LoadCell_init 5 False, LoadCell_init 7 False]"
    by (simp add: twin_hx_def init_load_cells_def)
  note t = accumulator_msb_first [of pattern_world ?c twin_hx pattern_world 1]
  have h': "set (map (\<lambda>k. gpio_in pattern_world (n_in pattern_world + k) (dout_pin ?c))
                  [0..<24]) \<subseteq> {0, 1}"
    using h by auto
  from t h ev a s have "fst (sample_times 24 (init_raw_read ?c) pattern_world) = Inr ()
      \<and> msb_first (\<lambda>k. gpio_in pattern_world (n_in pattern_world + k) (dout_pin ?c)) = 16760832
      \<and> raw_reads (load_cells (fst (snd (HX711_read twin_hx pattern_world))) ! 1)
          = [msb_first (\<lambda>k. own_samples twin_hx pattern_world 1 ! k)]
      \<and> msb_first (\<lambda>k. own_samples twin_hx pattern_world 1 ! k) < 2 ^ 24"
    by (simp add: l LoadCell_init_def)
  with h' ev a s show ?thesis by blast
qed

section \<open>What the two slips leave intact\<close>

text \<open>
  Once \<^verbatim>\<open>_pd_sck\<close> is present no operation of the read protocol raises: every outcome
  is a boolean. The exception of a constructed controller comes from the missing
  attribute alone.
\<close>

lemma pulse_returns:
  "pd_sck hx = Some p \<Longrightarrow> \<not> isl (fst (pulse_sck_high hx w))"
  by (simp add: pulse_sck_high_def perf_counter_call_def)

lemma pulse_times_returns:
  "pd_sck hx = Some p \<Longrightarrow> \<not> isl (fst (pulse_times n hx w))"
proof (induction n arbitrary: w)
  case 0
  then show ?case by simp
next
  case (Suc n)
  from pulse_returns[OF Suc.prems, of w] Suc.IH[OF Suc.prems]
  show ?case by (auto split: prod.splits sum.splits)
qed

lemma read_bits_returns:
  assumes "pd_sck hx = Some p" and "\<forall>c\<in>set (load_cells hx). current_raw_read c \<noteq> None"
  shows "\<not> isl (fst (read_bits n hx w))
           \<and> (\<forall>c\<in>set (load_cells (fst (snd (read_bits n hx w)))). current_raw_read c \<noteq> None)"
  using assms
proof (induction n arbitrary: hx w)
  case 0
  then show ?case by simp
next
  case (Suc n)
  obtain r w1 where p: "pulse_sck_high hx w = (r, w1)" by (cases "pulse_sck_high hx w")
  with pulse_returns[OF Suc.prems(1), of w] obtain b where r: "r = Inr b" by (cases r) auto
  show ?case
  proof (cases b)
    case False
    with p r Suc.prems(2) show ?thesis by simp
  next
    case True
    from read_cells_ok[OF Suc.prems(2), of w1] obtain cs1 where
      c: "read_cells (load_cells hx) w1
            = (Inr (), cs1, w1\<lparr>n_in := n_in w1 + length (load_cells hx)\<rparr>)"
      and l: "length cs1 = length (load_cells hx)"
      and e: "\<forall>i<length (load_cells hx). cs1 ! i = (load_cells hx ! i)\<lparr>current_raw_read :=
                 Some (push_bit 1 (the (current_raw_read (load_cells hx ! i)))
                        OR gpio_in w1 (n_in w1 + i) (dout_pin (load_cells hx ! i)))\<rparr>"
      by blast
    have a: "\<forall>c\<in>set (load_cells (hx\<lparr>load_cells := cs1\<rparr>)). current_raw_read c \<noteq> None"
      using e l by (auto simp: in_set_conv_nth)
    have q: "pd_sck (hx\<lparr>load_cells := cs1\<rparr>) = Some p" using Suc.prems(1) by simp
    from Suc.IH[OF q a, of "w1\<lparr>n_in := n_in w1 + length (load_cells hx)\<rparr>"] p r True c
    show ?thesis by simp
  qed
qed

lemma HX711_read_returns:
  assumes "pd_sck hx = Some p"
  shows "\<not> isl (fst (HX711_read hx w))"
proof -
  let ?hx1 = "hx\<lparr>load_cells := map init_raw_read (load_cells hx)\<rparr>"
  obtain r1 w1 where p: "prepare_to_read hx w = (r1, w1)" by (cases "prepare_to_read hx w")
  then have r1: "\<not> isl r1" using assms by (auto simp: prepare_to_read_def split: prod.splits)
  obtain r2 hx2 w2 where b: "read_bits 24 ?hx1 w1 = (r2, hx2, w2)"
    by (cases "read_bits 24 ?hx1 w1")
  have a: "\<forall>c\<in>set (load_cells ?hx1). current_raw_read c \<noteq> None"
    by (simp add: init_raw_read_def)
  have q: "pd_sck ?hx1 = Some p" using assms by simp
  from read_bits_returns[OF q a, of 24 w1] b
  have r2: "\<not> isl r2" and c: "\<forall>c\<in>set (load_cells hx2). current_raw_read c \<noteq> None"
    by simp_all
  obtain cs3 where f: "finish_cells (load_cells hx2) = (None, cs3)"
    using finish_cells_ok[OF c] by blast
  have q2: "pd_sck hx2 = Some p" using read_bits_frame[OF b] q by simp
  obtain r4 w4 where g: "write_channel_gain (hx2\<lparr>load_cells := cs3\<rparr>) w2 = (r4, w4)"
    by (cases "write_channel_gain (hx2\<lparr>load_cells := cs3\<rparr>) w2")
  have r4: "\<not> isl r4"
    using pulse_times_returns[of "hx2\<lparr>load_cells := cs3\<rparr>" p
        "num_pulses (hx2\<lparr>load_cells := cs3\<rparr>)" w2] q2 g
    by (simp add: write_channel_gain_def)
  show ?thesis
    using p r1 b r2 f g r4
    by (auto simp: HX711_read_def split: sum.splits)
qed

text \<open>
  One poll of \<^verbatim>\<open>_prepare_to_read\<close> reports ready exactly when no data pin reads 0.
\<close>

lemma poll_pins_result:
  "fst (poll_pins cs r w) =
     (r \<and> (\<forall>i<length cs. gpio_in w (n_in w + i) (dout_pin (cs ! i)) \<noteq> 0))"
proof (induction cs arbitrary: r w)
  case Nil
  then show ?case by simp
next
  case (Cons c cs)
  have s: "(\<forall>i<Suc n. P i) = (P 0 \<and> (\<forall>i<n. P (Suc i)))" for n and P :: "nat \<Rightarrow> bool"
    by (metis less_Suc_eq_0_disj Suc_less_eq zero_less_Suc)
  show ?case
    by (auto simp: GPIO_input_def Cons.IH s)
qed

end
